theory Spec2Isabelle
  imports Main "HOL-Library.AList"
begin

section \<open>Clapy: a shallow embedding of the argument parser\<close>

text \<open>
  The development follows \<^verbatim>\<open>clapy/argument.py\<close> and \<^verbatim>\<open>clapy/command.py\<close>.
  Python strings are \<^typ>\<open>string\<close>, Python exceptions are the left summand of a sum type,
  Python dictionaries are association lists in insertion order (\<open>AList.update\<close> keeps the
  position of a key that is already present, as a Python \<^verbatim>\<open>dict\<close> does), and the token
  lists that the parser mutates in place are passed in and returned.
\<close>

subsection \<open>Token classification (the three regular expressions)\<close>

text \<open>
  \<^verbatim>\<open>SHORT_ALIAS_REGEX = ^-[^-]$\<close>: a hyphen and one character that is not a hyphen
  (a negated class also matches a newline).
\<close>

definition is_short_alias_arg :: "string \<Rightarrow> bool" where
  "is_short_alias_arg arg =
     (case arg of [h, c] \<Rightarrow> h = CHR ''-'' \<and> c \<noteq> CHR ''-'' | _ \<Rightarrow> False)"

text \<open>
  \<^verbatim>\<open>LONG_ALIAS_REGEX = ^--[^-].+$\<close>: two hyphens, one character that is not a hyphen,
  then at least one character; the dot does not match a newline, and \<^verbatim>\<open>fullmatch\<close> has to
  reach the end of the string.
\<close>

definition is_long_alias_arg :: "string \<Rightarrow> bool" where
  "is_long_alias_arg arg =
     (case arg of
        h1 # h2 # c # rest \<Rightarrow>
          h1 = CHR ''-'' \<and> h2 = CHR ''-'' \<and> c \<noteq> CHR ''-'' \<and> rest \<noteq> [] \<and>
          (\<forall>x \<in> set rest. x \<noteq> CHR 0x0A)
      | _ \<Rightarrow> False)"

text \<open>
  \<^verbatim>\<open>SHORT_EXPANDABLE_ALIAS_REGEX = ^-(.)\1+$\<close>: a hyphen, a character other than a
  newline, and that same character at least once more.
\<close>

definition is_short_expandable_arg :: "string \<Rightarrow> bool" where
  "is_short_expandable_arg arg =
     (case arg of
        h # c # rest \<Rightarrow>
          h = CHR ''-'' \<and> c \<noteq> CHR 0x0A \<and> rest \<noteq> [] \<and> (\<forall>x \<in> set rest. x = c)
      | _ \<Rightarrow> False)"

definition is_named_arg :: "string \<Rightarrow> bool" where
  "is_named_arg arg =
     (is_short_alias_arg arg \<or> is_long_alias_arg arg \<or> is_short_expandable_arg arg)"

definition is_positional_arg :: "string \<Rightarrow> bool" where
  "is_positional_arg arg = (\<not> is_named_arg arg)"

definition NAMED_ARGUMENTS_STOP_TOKEN :: string where
  "NAMED_ARGUMENTS_STOP_TOKEN = ''--''"

definition NAMED_ARGUMENT_INLINE_VALUE_SEPARATOR :: char where
  "NAMED_ARGUMENT_INLINE_VALUE_SEPARATOR = CHR ''=''"

subsection \<open>Expansion of the special token forms\<close>

text \<open>
  One iteration of the loop of \<^verbatim>\<open>_expand_args\<close>: a named token with an equals sign is split
  at the first one (\<^verbatim>\<open>arg.split("=", 1)\<close>); otherwise a short expandable token \<^verbatim>\<open>-ccc\<close>
  becomes one \<^verbatim>\<open>-c\<close> per character after the hyphen; any other token is kept.
\<close>

definition expand_arg :: "string \<Rightarrow> string list" where
  "expand_arg arg =
     (if is_named_arg arg \<and> NAMED_ARGUMENT_INLINE_VALUE_SEPARATOR \<in> set arg then
        [takeWhile (\<lambda>c. c \<noteq> NAMED_ARGUMENT_INLINE_VALUE_SEPARATOR) arg,
         tl (dropWhile (\<lambda>c. c \<noteq> NAMED_ARGUMENT_INLINE_VALUE_SEPARATOR) arg)]
      else if is_short_expandable_arg arg then map (\<lambda>c. [CHR ''-'', c]) (tl arg)
      else [arg])"

definition expand_args :: "string list \<Rightarrow> string list" where
  "expand_args args = concat (map expand_arg args)"

subsection \<open>Values, actions, arities, exceptions\<close>

text \<open>
  The Python objects that a parse can store: \<^verbatim>\<open>None\<close>, booleans (flags), integers
  (counts), strings, tuples, and any other object a value parser or a default may supply.
\<close>

datatype pyval =
    PNone
  | PBool bool
  | PInt int
  | PStr string
  | PTuple "pyval list"
  | PObject nat

text \<open>
  Python's \<^verbatim>\<open>==\<close> identifies \<^verbatim>\<open>True\<close> with \<^verbatim>\<open>1\<close> and \<^verbatim>\<open>False\<close> with \<^verbatim>\<open>0\<close>, also inside
  tuples; membership in a set uses it.
\<close>

fun py_norm :: "pyval \<Rightarrow> pyval" where
  "py_norm (PBool b) = PInt (if b then 1 else 0)"
| "py_norm (PTuple vs) = PTuple (map py_norm vs)"
| "py_norm v = v"

definition py_in :: "pyval \<Rightarrow> pyval list \<Rightarrow> bool" where
  "py_in v vs = (py_norm v \<in> set (map py_norm vs))"

datatype arg_action = Set | Append | StoreTrue | StoreFalse | Count

text \<open>\<^verbatim>\<open>nargs: int | Literal["+", "*"] | range\<close>; a range is kept as its start and stop.\<close>

datatype nargs = NInt int | NPlus | NStar | NRange int int

text \<open>
  The messages of \<^verbatim>\<open>ClapyParsingError\<close>, one constructor for each format string of
  \<^verbatim>\<open>command.py\<close>, carrying the values that the format string interpolates.
\<close>

datatype parsing_error =
    No_arguments_supplied string
      \<comment> \<open>\<^verbatim>\<open>No arguments supplied for command '{name}'.\<close>\<close>
  | Mandatory_subcommand_expected string "string list"
      \<comment> \<open>\<^verbatim>\<open>Mandatory subcommand expected for command '{name}'. Options: {options}\<close>\<close>
  | Repeated_argument string
      \<comment> \<open>\<^verbatim>\<open>Repeated argument '{alias}'.\<close>\<close>
  | Invalid_named_value string pyval "string list"
      \<comment> \<open>\<^verbatim>\<open>Invalid value for named argument '{alias}': '{v}'. (Valid values: ...)\<close>\<close>
  | Invalid_positional_value string pyval "string list"
      \<comment> \<open>\<^verbatim>\<open>Invalid value for positional argument '{id}': '{v}'. (Valid values: ...)\<close>\<close>
  | Wrong_value_type string "string list"
      \<comment> \<open>\<^verbatim>\<open>Wrong value(s) type for argument '{alias or id}'. Wrong values: ...\<close>\<close>
  | Missing_required_named "string option" "string option"
      \<comment> \<open>\<^verbatim>\<open>Missing required named argument '{long}/{short}'.\<close>\<close>
  | Missing_required_positional string
      \<comment> \<open>\<^verbatim>\<open>Missing required positional argument: '{id}'.\<close>\<close>
  | Missing_argument_values string int int
      \<comment> \<open>\<^verbatim>\<open>Missing argument values for '{name}'. Received {n}, expected at least {min}.\<close>\<close>
  | Unknown_extra_arguments "string list"
      \<comment> \<open>\<^verbatim>\<open>Unknown extra arguments: '{...}'.\<close>\<close>

text \<open>
  What ends the process: \<^verbatim>\<open>_show_help\<close> prints the help of a command and calls
  \<^verbatim>\<open>sys.exit(0)\<close>; the handler of \<^verbatim>\<open>parse_from\<close> prints the message of a parsing error and
  calls \<^verbatim>\<open>sys.exit()\<close>. The rendered help text is not modelled, only whose help it is.
\<close>

datatype exit_cause = Help_shown string | Error_printed parsing_error

datatype exn =
    ClapyParsingError parsing_error
  | SystemExit exit_cause
  | AssertionError
  | TypeError
  | ValueError
  | KeyError
  | IndexError
  | AttributeError
  | OtherException nat

subsection \<open>Argument and command definitions\<close>

text \<open>
  \<^verbatim>\<open>_ArgData\<close>. The field \<^verbatim>\<open>id\<close> is \<open>arg_id\<close> and \<^verbatim>\<open>default\<close> is \<open>default_value\<close>
  (both names are taken in HOL); \<^verbatim>\<open>help\<close> is text for the help printer only and is left out.
  \<^verbatim>\<open>valid_values\<close> is the set in its iteration order.
\<close>

record arg_data =
  arg_id :: string
  short :: "string option"
  long :: "string option"
  action :: arg_action
  default_value :: pyval
  nargs :: nargs
  value_parser :: "string \<Rightarrow> exn + pyval"
  propagate :: bool
  valid_values :: "pyval list option"

definition is_positional :: "arg_data \<Rightarrow> bool" where
  "is_positional d = (short d = None \<and> long d = None)"

definition is_named :: "arg_data \<Rightarrow> bool" where
  "is_named d = (\<not> is_positional d)"

text \<open>
  \<^verbatim>\<open>_CommandData\<close> with the subcommands of \<^verbatim>\<open>Command\<close>; \<^verbatim>\<open>help\<close>, \<^verbatim>\<open>help_print_method\<close>
  and the parent reference serve the help printer only.
\<close>

datatype command = Command
  (name: string)
  (mandatory_subcommand: bool)
  (no_args_requests_help: bool)
  (help_options: "string list")
  (arguments: "arg_data list")
  (subcommands: "(string \<times> command) list")

text \<open>\<^verbatim>\<open>_show_help\<close>: print, then \<^verbatim>\<open>sys.exit(0)\<close>.\<close>

definition show_help :: "command \<Rightarrow> exn" where
  "show_help c = SystemExit (Help_shown (name c))"

subsection \<open>The result tree and its accessors\<close>

datatype parsed_arg = ParsedArg (parsed_value: pyval) (parsed_action: arg_action)

datatype parsed_command = ParsedCommand
  (pc_name: string)
  (parsed_arguments: "(string \<times> parsed_arg) list")
  (parsed_subcommand: "parsed_command option")

definition subcommand :: "parsed_command \<Rightarrow> parsed_command option" where
  "subcommand pc = parsed_subcommand pc"

definition subcommand_name :: "parsed_command \<Rightarrow> string option" where
  "subcommand_name pc =
     (case parsed_subcommand pc of Some s \<Rightarrow> Some (pc_name s) | None \<Rightarrow> None)"

text \<open>
  Each accessor returns \<^verbatim>\<open>None\<close> for an identifier that was not parsed; an \<^verbatim>\<open>assert\<close>
  that fails raises \<^verbatim>\<open>AssertionError\<close>, and \<^verbatim>\<open>get_one\<close> and \<^verbatim>\<open>get_many\<close> raise
  \<^verbatim>\<open>ClapyArgumentError\<close> on a value of the wrong shape.
\<close>

datatype accessor_error = Assertion_failed | ClapyArgumentError

definition is_tuple :: "pyval \<Rightarrow> bool" where
  "is_tuple v = (case v of PTuple _ \<Rightarrow> True | _ \<Rightarrow> False)"

definition get_any :: "parsed_command \<Rightarrow> string \<Rightarrow> pyval" where
  "get_any pc i =
     (case map_of (parsed_arguments pc) i of
        Some pa \<Rightarrow> parsed_value pa
      | None \<Rightarrow> PNone)"

definition get_one :: "parsed_command \<Rightarrow> string \<Rightarrow> accessor_error + pyval" where
  "get_one pc i =
     (case map_of (parsed_arguments pc) i of
        Some pa \<Rightarrow>
          if parsed_action pa \<notin> {Set, Append} then Inl Assertion_failed
          else if is_tuple (parsed_value pa) then Inl ClapyArgumentError
          else Inr (parsed_value pa)
      | None \<Rightarrow> Inr PNone)"

definition get_many :: "parsed_command \<Rightarrow> string \<Rightarrow> bool \<Rightarrow> accessor_error + pyval" where
  "get_many pc i force =
     (case map_of (parsed_arguments pc) i of
        Some pa \<Rightarrow>
          if parsed_action pa \<notin> {Set, Append} then Inl Assertion_failed
          else if \<not> is_tuple (parsed_value pa) then
            (if force then Inr (PTuple [parsed_value pa]) else Inl ClapyArgumentError)
          else Inr (parsed_value pa)
      | None \<Rightarrow> Inr PNone)"

definition get_flag :: "parsed_command \<Rightarrow> string \<Rightarrow> accessor_error + pyval" where
  "get_flag pc i =
     (case map_of (parsed_arguments pc) i of
        Some pa \<Rightarrow>
          if parsed_action pa \<notin> {StoreFalse, StoreTrue} then Inl Assertion_failed
          else Inr (parsed_value pa)
      | None \<Rightarrow> Inr PNone)"

definition get_count :: "parsed_command \<Rightarrow> string \<Rightarrow> accessor_error + pyval" where
  "get_count pc i =
     (case map_of (parsed_arguments pc) i of
        Some pa \<Rightarrow>
          if parsed_action pa \<noteq> Count then Inl Assertion_failed
          else Inr (parsed_value pa)
      | None \<Rightarrow> Inr PNone)"


subsection \<open>Consuming the values of one argument\<close>

text \<open>\<^verbatim>\<open>_nargs_bounds\<close>: the pair (min, max), where no maximum is \<open>None\<close>.\<close>

fun nargs_bounds :: "nargs \<Rightarrow> int \<times> int option" where
  "nargs_bounds (NInt n) = (n, Some n)"
| "nargs_bounds NPlus = (1, None)"
| "nargs_bounds NStar = (0, None)"
| "nargs_bounds (NRange start stop) = (start, Some stop)"

text \<open>
  The \<^verbatim>\<open>while i < len(args)\<close> loop of \<^verbatim>\<open>_parse_and_consume_values\<close>. The last argument is
  \<^verbatim>\<open>args[i:]\<close>; the result is the collected values and what is left of \<^verbatim>\<open>args[start:]\<close>
  after \<^verbatim>\<open>del args[start:i]\<close>. When the list ends the loop is left without any check.
\<close>

fun consume_values_loop ::
  "int \<Rightarrow> int option \<Rightarrow> string \<Rightarrow> string list \<Rightarrow> string list \<Rightarrow>
     exn + (string list \<times> string list)" where
  "consume_values_loop min_n max_n arg_name vals [] = Inr (vals, [])"
| "consume_values_loop min_n max_n arg_name vals (arg # rest) =
     (if is_named_arg arg \<or> arg = NAMED_ARGUMENTS_STOP_TOKEN then
        (if int (length vals) \<ge> min_n then Inr (vals, arg # rest)
         else Inl (ClapyParsingError
                (Missing_argument_values arg_name (int (length vals)) min_n)))
      else
        (if max_n \<noteq> None \<and> Some (int (length (vals @ [arg]))) = max_n
         then Inr (vals @ [arg], rest)
         else consume_values_loop min_n max_n arg_name (vals @ [arg]) rest))"

text \<open>
  \<^verbatim>\<open>_parse_and_consume_values(args, start, arg_data, arg_name)\<close>, given \<^verbatim>\<open>args[start:]\<close>
  (the tokens before \<^verbatim>\<open>start\<close> are not touched). An argument without values consumes
  nothing and returns the list \<^verbatim>\<open>["dummy"]\<close>.
\<close>

definition parse_and_consume_values ::
  "string list \<Rightarrow> arg_data \<Rightarrow> string \<Rightarrow> exn + (string list \<times> string list)" where
  "parse_and_consume_values args d arg_name =
     (case action d of
        StoreTrue \<Rightarrow> Inr ([''dummy''], args)
      | StoreFalse \<Rightarrow> Inr ([''dummy''], args)
      | Count \<Rightarrow> Inr ([''dummy''], args)
      | _ \<Rightarrow>
          (case nargs_bounds (nargs d) of
             (min_n, max_n) \<Rightarrow> consume_values_loop min_n max_n arg_name [] args))"

subsection \<open>Converting and validating values\<close>

text \<open>\<^verbatim>\<open>tuple(map(value_parser, values))\<close>: the first exception ends the conversion.\<close>

fun map_value_parser :: "(string \<Rightarrow> exn + pyval) \<Rightarrow> string list \<Rightarrow> exn + pyval list" where
  "map_value_parser f [] = Inr []"
| "map_value_parser f (x # xs) =
     (case f x of
        Inl e \<Rightarrow> Inl e
      | Inr v \<Rightarrow> (case map_value_parser f xs of Inl e \<Rightarrow> Inl e | Inr vs \<Rightarrow> Inr (v # vs)))"

text \<open>\<^verbatim>\<open>", ".join(valid_values)\<close> raises \<^verbatim>\<open>TypeError\<close> on an element that is not a string.\<close>

fun join_valid_values :: "pyval list \<Rightarrow> exn + string list" where
  "join_valid_values [] = Inr []"
| "join_valid_values (PStr s # vs) =
     (case join_valid_values vs of Inl e \<Rightarrow> Inl e | Inr ss \<Rightarrow> Inr (s # ss))"
| "join_valid_values (v # vs) = Inl TypeError"

text \<open>The check for valid values; \<open>mk\<close> builds the error of the named or positional pass.\<close>

definition check_valid_values ::
  "arg_data \<Rightarrow> (pyval \<Rightarrow> string list \<Rightarrow> parsing_error) \<Rightarrow> pyval list \<Rightarrow> exn + unit" where
  "check_valid_values d mk parsed_values =
     (case valid_values d of
        None \<Rightarrow> Inr ()
      | Some vv \<Rightarrow>
          (case join_valid_values vv of
             Inl e \<Rightarrow> Inl e
           | Inr names \<Rightarrow>
               (case find (\<lambda>v. \<not> py_in v vv) parsed_values of
                  Some v \<Rightarrow> Inl (ClapyParsingError (mk v names))
                | None \<Rightarrow> Inr ())))"

text \<open>One value is stored as it is, any other number of values as a tuple.\<close>

definition collapse_values :: "pyval list \<Rightarrow> arg_action \<Rightarrow> parsed_arg" where
  "collapse_values parsed_values act =
     (if length parsed_values = 1 then ParsedArg (hd parsed_values) act
      else ParsedArg (PTuple parsed_values) act)"

subsection \<open>The named pass\<close>

type_synonym arg_map = "(string \<times> arg_data) list"
type_synonym consumed_map = "(string \<times> string list list) list"
type_synonym parsed_map = "(string \<times> parsed_arg) list"

text \<open>
  The two dictionaries built at the start of \<^verbatim>\<open>_parse_and_consume_named_args\<close>:
  identifier to argument, and alias to argument (the long alias is entered first).
\<close>

definition add_named_arg :: "bool \<Rightarrow> arg_data \<Rightarrow> arg_map \<times> arg_map \<Rightarrow> arg_map \<times> arg_map" where
  "add_named_arg parse_only_propagated d maps =
     (case maps of
        (ids_map, alias_map) \<Rightarrow>
          if \<not> is_named d then maps
          else if parse_only_propagated \<and> \<not> propagate d then maps
          else
            (AList.update (arg_id d) d ids_map,
             (let m1 = (case long d of Some l \<Rightarrow> AList.update l d alias_map | None \<Rightarrow> alias_map)
              in (case short d of Some s \<Rightarrow> AList.update s d m1 | None \<Rightarrow> m1))))"

definition named_args_maps :: "arg_data list \<Rightarrow> bool \<Rightarrow> arg_map \<times> arg_map" where
  "named_args_maps args parse_only_propagated =
     fold (add_named_arg parse_only_propagated) args ([], [])"

text \<open>
  The \<^verbatim>\<open>while i < len(args)\<close> loop over one token list: \<open>kept\<close> is \<^verbatim>\<open>args[:i]\<close>, the last
  argument is \<^verbatim>\<open>args[i:]\<close>. A known alias is removed together with its values and the
  values are appended to the groups recorded under that alias.
\<close>

function consume_named ::
  "arg_map \<Rightarrow> consumed_map \<Rightarrow> string list \<Rightarrow> string list \<Rightarrow>
     exn + (consumed_map \<times> string list)" where
  "consume_named alias_map consumed kept [] = Inr (consumed, kept)"
| "consume_named alias_map consumed kept (arg # rest) =
     (if is_named_arg arg then
        (case map_of alias_map arg of
           Some d \<Rightarrow>
             (case parse_and_consume_values rest d arg of
                Inl e \<Rightarrow> Inl e
              | Inr (vals, rest') \<Rightarrow>
                  consume_named alias_map
                    (AList.map_default arg [vals] (\<lambda>groups. groups @ [vals]) consumed)
                    kept rest')
         | None \<Rightarrow> consume_named alias_map consumed (kept @ [arg]) rest)
      else consume_named alias_map consumed (kept @ [arg]) rest)"
  by pat_completeness auto
termination
proof -
  have loop: "length r \<le> length xs"
    if "consume_values_loop mn mx nm vs xs = Inr (v, r)" for mn mx nm vs xs v r
    using that by (induction xs arbitrary: vs) (fastforce split: if_splits)+
  have shorter: "length r \<le> length xs"
    if "parse_and_consume_values xs d nm = Inr (v, r)" for xs d nm v r
    using that
    by (auto simp: parse_and_consume_values_def split: arg_action.splits prod.splits
        dest: loop)
  show ?thesis
    by (relation "measure (\<lambda>(m, c, k, r). length r)") (auto dest: shorter)
qed

text \<open>The \<^verbatim>\<open>for args in arg_lists\<close> loop around it.\<close>

fun consume_named_lists ::
  "arg_map \<Rightarrow> consumed_map \<Rightarrow> string list list \<Rightarrow> exn + (consumed_map \<times> string list list)" where
  "consume_named_lists alias_map consumed [] = Inr (consumed, [])"
| "consume_named_lists alias_map consumed (args # others) =
     (case consume_named alias_map consumed [] args of
        Inl e \<Rightarrow> Inl e
      | Inr (consumed', args') \<Rightarrow>
          (case consume_named_lists alias_map consumed' others of
             Inl e \<Rightarrow> Inl e
           | Inr (consumed'', others') \<Rightarrow> Inr (consumed'', args' # others')))"

text \<open>
  The \<^verbatim>\<open>try\<close> block for a Set or Append argument: convert every value, then check the
  valid values.
\<close>

definition named_try_block :: "arg_data \<Rightarrow> string \<Rightarrow> string list \<Rightarrow> exn + pyval list" where
  "named_try_block d alias flattened_values =
     (case map_value_parser (value_parser d) flattened_values of
        Inl e \<Rightarrow> Inl e
      | Inr parsed_values \<Rightarrow>
          (case check_valid_values d (Invalid_named_value alias) parsed_values of
             Inl e \<Rightarrow> Inl e
           | Inr _ \<Rightarrow> Inr parsed_values))"

text \<open>
  The \<^verbatim>\<open>match arg_data.action\<close> of the loop over the consumed aliases: the value stored
  for an alias with its recorded groups. \<^verbatim>\<open>except ValueError\<close> turns that exception, and
  no other, into a parsing error.
\<close>

definition parse_named_value :: "arg_data \<Rightarrow> string \<Rightarrow> string list list \<Rightarrow> exn + parsed_arg" where
  "parse_named_value d alias groups =
     (case action d of
        StoreTrue \<Rightarrow> Inr (ParsedArg (PBool True) StoreTrue)
      | StoreFalse \<Rightarrow> Inr (ParsedArg (PBool False) StoreFalse)
      | Count \<Rightarrow> Inr (ParsedArg (PInt (int (length groups))) Count)
      | _ \<Rightarrow>
          if length groups > 1 \<and> action d = Set
          then Inl (ClapyParsingError (Repeated_argument alias))
          else
            (case named_try_block d alias (concat groups) of
               Inl ValueError \<Rightarrow>
                 Inl (ClapyParsingError (Wrong_value_type alias (concat groups)))
             | Inl e \<Rightarrow> Inl e
             | Inr parsed_values \<Rightarrow> Inr (collapse_values parsed_values (action d))))"

text \<open>
  The loop \<^verbatim>\<open>for alias in consumed_values\<close>, in the order in which the aliases were first
  seen. An alias whose argument identifier has already been removed from the identifier
  dictionary is a repeated argument, whatever the action.
\<close>

fun parse_consumed ::
  "arg_map \<Rightarrow> arg_map \<Rightarrow> parsed_map \<Rightarrow> consumed_map \<Rightarrow> exn + (arg_map \<times> parsed_map)" where
  "parse_consumed alias_map ids_map parsed_args [] = Inr (ids_map, parsed_args)"
| "parse_consumed alias_map ids_map parsed_args ((alias, groups) # rest) =
     (case map_of alias_map alias of
        None \<Rightarrow> Inl KeyError
      | Some d \<Rightarrow>
          if map_of ids_map (arg_id d) = None
          then Inl (ClapyParsingError (Repeated_argument alias))
          else
            (case parse_named_value d alias groups of
               Inl e \<Rightarrow> Inl e
             | Inr parsed_arg \<Rightarrow>
                 parse_consumed alias_map (AList.delete (arg_id d) ids_map)
                   (AList.update (arg_id d) parsed_arg parsed_args) rest))"

text \<open>
  The loop over the arguments that were not seen: a default that is not \<^verbatim>\<open>None\<close> is stored
  as it is, a flag gets the negated value, a counter gets 0, anything else is missing.
\<close>

fun unparsed_named :: "arg_data list \<Rightarrow> parsed_map \<Rightarrow> exn + parsed_map" where
  "unparsed_named [] parsed_args = Inr parsed_args"
| "unparsed_named (d # ds) parsed_args =
     (case action d of
        StoreTrue \<Rightarrow>
          unparsed_named ds (AList.update (arg_id d) (ParsedArg (PBool False) StoreTrue) parsed_args)
      | StoreFalse \<Rightarrow>
          unparsed_named ds (AList.update (arg_id d) (ParsedArg (PBool True) StoreFalse) parsed_args)
      | Count \<Rightarrow>
          unparsed_named ds (AList.update (arg_id d) (ParsedArg (PInt 0) Count) parsed_args)
      | _ \<Rightarrow>
          if default_value d \<noteq> PNone
          then unparsed_named ds
                 (AList.update (arg_id d) (ParsedArg (default_value d) (action d)) parsed_args)
          else Inl (ClapyParsingError (Missing_required_named (long d) (short d))))"

text \<open>
  \<^verbatim>\<open>_parse_and_consume_named_args\<close>: the parsed arguments, and the token lists after the
  aliases and values have been deleted from them.
\<close>

definition parse_and_consume_named_args ::
  "command \<Rightarrow> string list list \<Rightarrow> bool \<Rightarrow> exn + (parsed_map \<times> string list list)" where
  "parse_and_consume_named_args cmd arg_lists parse_only_propagated =
     (case named_args_maps (arguments cmd) parse_only_propagated of
        (ids_map, alias_map) \<Rightarrow>
          (case consume_named_lists alias_map [] arg_lists of
             Inl e \<Rightarrow> Inl e
           | Inr (consumed, arg_lists') \<Rightarrow>
               (case parse_consumed alias_map ids_map [] consumed of
                  Inl e \<Rightarrow> Inl e
                | Inr (ids_left, parsed_args) \<Rightarrow>
                    (case unparsed_named (map snd ids_left) parsed_args of
                       Inl e \<Rightarrow> Inl e
                     | Inr parsed_args' \<Rightarrow> Inr (parsed_args', arg_lists')))))"

subsection \<open>The positional pass\<close>

text \<open>
  The inner \<^verbatim>\<open>while\<close> loop over one token list: \<open>defs\<close> are the positional definitions
  from \<^verbatim>\<open>positional_data_i\<close> on, \<open>kept\<close> is \<^verbatim>\<open>args[:arg_i]\<close> and the last argument is
  \<^verbatim>\<open>args[arg_i:]\<close>. After the values of a definition have been deleted, \<^verbatim>\<open>arg_i\<close> is
  still incremented, so the token that now stands at \<^verbatim>\<open>arg_i\<close> is stepped over.
\<close>

fun consume_positional ::
  "arg_data list \<Rightarrow> string list list \<Rightarrow> string list \<Rightarrow> string list \<Rightarrow>
     exn + (string list list \<times> arg_data list \<times> string list)" where
  "consume_positional [] consumed kept args = Inr (consumed, [], kept @ args)"
| "consume_positional (d # ds) consumed kept [] = Inr (consumed, d # ds, kept)"
| "consume_positional (d # ds) consumed kept (arg # rest) =
     (if is_positional_arg arg then
        (case parse_and_consume_values (arg # rest) d (arg_id d) of
           Inl e \<Rightarrow> Inl e
         | Inr (vals, rest') \<Rightarrow>
             (case rest' of
                [] \<Rightarrow> Inr (consumed @ [vals], ds, kept)
              | skipped # rest'' \<Rightarrow>
                  consume_positional ds (consumed @ [vals]) (kept @ [skipped]) rest''))
      else consume_positional (d # ds) consumed (kept @ [arg]) rest)"

fun consume_positional_lists ::
  "arg_data list \<Rightarrow> string list list \<Rightarrow> string list list \<Rightarrow>
     exn + (string list list \<times> string list list)" where
  "consume_positional_lists defs consumed [] = Inr (consumed, [])"
| "consume_positional_lists defs consumed (args # others) =
     (case consume_positional defs consumed [] args of
        Inl e \<Rightarrow> Inl e
      | Inr (consumed', defs', args') \<Rightarrow>
          (case consume_positional_lists defs' consumed' others of
             Inl e \<Rightarrow> Inl e
           | Inr (consumed'', others') \<Rightarrow> Inr (consumed'', args' # others')))"

text \<open>
  The loop over \<^verbatim>\<open>zip_longest(positional_args_data, consumed_values)\<close>: a definition
  without a group of values has \<^verbatim>\<open>values is None\<close>.
\<close>

definition parse_positional_value :: "arg_data \<Rightarrow> string list \<Rightarrow> exn + parsed_arg" where
  "parse_positional_value d vals =
     (case map_value_parser (value_parser d) vals of
        Inl ValueError \<Rightarrow> Inl (ClapyParsingError (Wrong_value_type (arg_id d) vals))
      | Inl e \<Rightarrow> Inl e
      | Inr parsed_values \<Rightarrow>
          (case check_valid_values d (Invalid_positional_value (arg_id d)) parsed_values of
             Inl e \<Rightarrow> Inl e
           | Inr _ \<Rightarrow> Inr (collapse_values parsed_values (action d))))"

fun parse_positionals ::
  "arg_data list \<Rightarrow> string list list \<Rightarrow> parsed_map \<Rightarrow> exn + parsed_map" where
  "parse_positionals [] [] parsed_args = Inr parsed_args"
| "parse_positionals [] (vals # consumed) parsed_args = Inl AttributeError"
| "parse_positionals (d # ds) consumed parsed_args =
     (if action d \<noteq> Set then Inl AssertionError
      else
        (case consumed of
           [] \<Rightarrow>
             if default_value d \<noteq> PNone
             then parse_positionals ds []
                    (AList.update (arg_id d) (ParsedArg (default_value d) (action d)) parsed_args)
             else Inl (ClapyParsingError (Missing_required_positional (arg_id d)))
         | vals # consumed' \<Rightarrow>
             (case parse_positional_value d vals of
                Inl e \<Rightarrow> Inl e
              | Inr parsed_arg \<Rightarrow>
                  parse_positionals ds consumed'
                    (AList.update (arg_id d) parsed_arg parsed_args))))"

definition positional_args_data :: "arg_data list \<Rightarrow> bool \<Rightarrow> arg_data list" where
  "positional_args_data args parse_only_propagated =
     filter (\<lambda>d. is_positional d \<and> \<not> (parse_only_propagated \<and> \<not> propagate d)) args"

definition parse_and_consume_positional_args ::
  "command \<Rightarrow> string list list \<Rightarrow> bool \<Rightarrow> exn + (parsed_map \<times> string list list)" where
  "parse_and_consume_positional_args cmd arg_lists parse_only_propagated =
     (if length arg_lists = 0 then Inr ([], arg_lists)
      else
        (case consume_positional_lists
                (positional_args_data (arguments cmd) parse_only_propagated) [] arg_lists of
           Inl e \<Rightarrow> Inl e
         | Inr (consumed, arg_lists') \<Rightarrow>
             (case parse_positionals
                     (positional_args_data (arguments cmd) parse_only_propagated) consumed [] of
                Inl e \<Rightarrow> Inl e
              | Inr parsed_args \<Rightarrow> Inr (parsed_args, arg_lists'))))"

subsection \<open>Discovery of the command path\<close>

text \<open>
  The \<^verbatim>\<open>for i, a in enumerate(args)\<close> loop of \<^verbatim>\<open>_discover_command_path\<close>. \<open>cur\<close> is
  \<^verbatim>\<open>command_chain[-1]\<close>, \<open>seg\<close> are the tokens since the last subcommand name
  (\<^verbatim>\<open>args[last_subcommand_pos + 1 : i]\<close>); the result is the chain from \<open>cur\<close> on and the
  token lists appended from here on. A named token that is a help option of the current
  command shows the help and exits; a positional token that names a subcommand of the
  current command closes the segment.
\<close>

fun scan_command_path ::
  "command \<Rightarrow> string list \<Rightarrow> string list \<Rightarrow> exn + (command list \<times> string list list)" where
  "scan_command_path cur seg [] = Inr ([cur], [seg])"
| "scan_command_path cur seg (a # rest) =
     (if is_named_arg a then
        (if a \<in> set (help_options cur) then Inl (show_help cur)
         else scan_command_path cur (seg @ [a]) rest)
      else
        (case map_of (subcommands cur) a of
           Some possible_subcommand \<Rightarrow>
             (case scan_command_path possible_subcommand [] rest of
                Inl e \<Rightarrow> Inl e
              | Inr (chain, subarg_lists) \<Rightarrow> Inr (cur # chain, seg # subarg_lists))
         | None \<Rightarrow> scan_command_path cur (seg @ [a]) rest))"

text \<open>
  The check for a command without arguments: help if the command asks for it, otherwise a
  parsing error.
\<close>

fun check_no_args :: "command list \<Rightarrow> string list list \<Rightarrow> exn + unit" where
  "check_no_args (c # chain) (args_list # subarg_lists) =
     (if length args_list = 0 then
        (if no_args_requests_help c then Inl (show_help c)
         else Inl (ClapyParsingError (No_arguments_supplied (name c))))
      else check_no_args chain subarg_lists)"
| "check_no_args chain [] = Inr ()"
| "check_no_args [] (args_list # subarg_lists) =
     (if length args_list = 0 then Inl IndexError
      else check_no_args [] subarg_lists)"

definition discover_command_path ::
  "command \<Rightarrow> string list \<Rightarrow> exn + (command list \<times> string list list)" where
  "discover_command_path self args =
     (case scan_command_path self [] args of
        Inl e \<Rightarrow> Inl e
      | Inr (command_chain, raw_lists) \<Rightarrow>
          (let subarg_lists = map expand_args raw_lists in
           if length command_chain \<noteq> length subarg_lists then Inl AssertionError
           else
             (case check_no_args command_chain subarg_lists of
                Inl e \<Rightarrow> Inl e
              | Inr _ \<Rightarrow>
                  if mandatory_subcommand (last command_chain) \<and>
                     length (subcommands (last command_chain)) > 0
                  then Inl (ClapyParsingError
                         (Mandatory_subcommand_expected (name (last command_chain))
                            (map fst (subcommands (last command_chain)))))
                  else Inr (command_chain, subarg_lists))))"

subsection \<open>The whole parse\<close>

text \<open>
  Step 1 of \<^verbatim>\<open>parse_from\<close>, over \<^verbatim>\<open>enumerate(command_chain[::-1])\<close>: the command at
  position \<open>i\<close> from the end parses the last \<open>i + 1\<close> token lists, which are the same list
  objects as in \<^verbatim>\<open>subarg_lists\<close>, so what it deletes is gone for the commands after it.
\<close>

fun parse_named_chain ::
  "(nat \<times> command) list \<Rightarrow> string list list \<Rightarrow> parsed_command list \<Rightarrow>
     exn + (parsed_command list \<times> string list list)" where
  "parse_named_chain [] subarg_lists parsed_command_chain =
     Inr (parsed_command_chain, subarg_lists)"
| "parse_named_chain ((i, cmd) # cmds) subarg_lists parsed_command_chain =
     (let k = length subarg_lists - (i + 1) in
      case parse_and_consume_named_args cmd (drop k subarg_lists) (i \<noteq> 0) of
        Inl e \<Rightarrow> Inl e
      | Inr (parsed_args, lists') \<Rightarrow>
          parse_named_chain cmds (take k subarg_lists @ lists')
            (ParsedCommand (name cmd) parsed_args None # parsed_command_chain))"

text \<open>\<^verbatim>\<open>dict.update\<close>.\<close>

definition dict_update :: "parsed_map \<Rightarrow> parsed_map \<Rightarrow> parsed_map" where
  "dict_update m other = fold (\<lambda>(k, v). AList.update k v) other m"

text \<open>
  Step 2, over \<^verbatim>\<open>enumerate(command_chain)\<close>: the command at position \<open>i\<close> parses the
  token lists from \<open>i\<close> on and its positional arguments are added to its parsed command.
\<close>

fun parse_positional_chain ::
  "nat \<Rightarrow> (nat \<times> command) list \<Rightarrow> string list list \<Rightarrow> parsed_command list \<Rightarrow>
     exn + (parsed_command list \<times> string list list)" where
  "parse_positional_chain n [] subarg_lists parsed_command_chain =
     Inr (parsed_command_chain, subarg_lists)"
| "parse_positional_chain n ((i, cmd) # cmds) subarg_lists parsed_command_chain =
     (case parse_and_consume_positional_args cmd (drop i subarg_lists) (i + 1 \<noteq> n) of
        Inl e \<Rightarrow> Inl e
      | Inr (parsed_args, lists') \<Rightarrow>
          if i < length parsed_command_chain then
            parse_positional_chain n cmds (take i subarg_lists @ lists')
              (parsed_command_chain
                 [i := (case parsed_command_chain ! i of
                          ParsedCommand nm pa sub \<Rightarrow>
                            ParsedCommand nm (dict_update pa parsed_args) sub)])
          else Inl IndexError)"

text \<open>Step 3: the first token list that is not empty is reported.\<close>

fun check_unknown_arguments :: "string list list \<Rightarrow> exn + unit" where
  "check_unknown_arguments [] = Inr ()"
| "check_unknown_arguments (sub_list # subarg_lists) =
     (if length sub_list > 0 then Inl (ClapyParsingError (Unknown_extra_arguments sub_list))
      else check_unknown_arguments subarg_lists)"

text \<open>Step 4: every parsed command gets the next one as its subcommand.\<close>

fun nest_parsed_commands :: "parsed_command list \<Rightarrow> parsed_command option" where
  "nest_parsed_commands [] = None"
| "nest_parsed_commands (pc # pcs) =
     Some (ParsedCommand (pc_name pc) (parsed_arguments pc) (nest_parsed_commands pcs))"

text \<open>The body of the \<^verbatim>\<open>try\<close> statement of \<^verbatim>\<open>parse_from\<close>.\<close>

definition parse_from_try :: "command \<Rightarrow> string list \<Rightarrow> exn + parsed_command" where
  "parse_from_try self args =
     (case discover_command_path self args of
        Inl e \<Rightarrow> Inl e
      | Inr (command_chain, subarg_lists) \<Rightarrow>
          (case parse_named_chain (enumerate 0 (rev command_chain)) subarg_lists [] of
             Inl e \<Rightarrow> Inl e
           | Inr (named_chain, lists1) \<Rightarrow>
               (case parse_positional_chain (length command_chain)
                       (enumerate 0 command_chain) lists1 named_chain of
                  Inl e \<Rightarrow> Inl e
                | Inr (parsed_command_chain, lists2) \<Rightarrow>
                    (case check_unknown_arguments lists2 of
                       Inl e \<Rightarrow> Inl e
                     | Inr _ \<Rightarrow>
                         (case nest_parsed_commands parsed_command_chain of
                            None \<Rightarrow> Inl IndexError
                          | Some parsed \<Rightarrow> Inr parsed)))))"

text \<open>
  \<^verbatim>\<open>parse_from\<close>: the handler \<^verbatim>\<open>except ClapyParsingError as e\<close> prints the message and
  calls \<^verbatim>\<open>sys.exit()\<close>; the line that would raise the error again is commented out. Every
  other exception, the exit after a help text included, passes through.
\<close>

definition parse_from :: "command \<Rightarrow> string list \<Rightarrow> exn + parsed_command" where
  "parse_from self args =
     (case parse_from_try self args of
        Inl (ClapyParsingError e) \<Rightarrow> Inl (SystemExit (Error_printed e))
      | Inl e \<Rightarrow> Inl e
      | Inr parsed \<Rightarrow> Inr parsed)"


subsection \<open>The defaults of the builders\<close>

text \<open>\<^verbatim>\<open>str\<close>, the default value parser: it returns the token.\<close>

definition str_value_parser :: "string \<Rightarrow> exn + pyval" where
  "str_value_parser s = Inr (PStr s)"

text \<open>\<^verbatim>\<open>Arg(name)\<close>: the defaults of the fields of \<^verbatim>\<open>_ArgData\<close>.\<close>

definition Arg :: "string \<Rightarrow> arg_data" where
  "Arg i =
     \<lparr>arg_id = i, short = None, long = None, action = Set, default_value = PNone,
      nargs = NInt 1, value_parser = str_value_parser, propagate = False,
      valid_values = None\<rparr>"

text \<open>
  \<^verbatim>\<open>Command(name)\<close> with the arguments and subcommands added by the builder methods; the
  other fields are the defaults of \<^verbatim>\<open>_CommandData\<close>.
\<close>

definition default_command :: "string \<Rightarrow> arg_data list \<Rightarrow> (string \<times> command) list \<Rightarrow> command" where
  "default_command n args subs = Command n True True [''--help'', ''-h''] args subs"

text \<open>The command itself and all its descendants.\<close>

fun all_commands :: "command \<Rightarrow> command list" where
  "all_commands (Command n ms nh hs args subs) =
     Command n ms nh hs args subs # concat (map (\<lambda>(k, s). all_commands s) subs)"


section \<open>Properties\<close>

text \<open>The definitions that a parse of concrete tokens unfolds.\<close>

lemmas parse_defs = parse_from_def parse_from_try_def discover_command_path_def
  parse_and_consume_named_args_def parse_and_consume_positional_args_def
  named_args_maps_def add_named_arg_def positional_args_data_def
  parse_and_consume_values_def parse_named_value_def named_try_block_def
  parse_positional_value_def check_valid_values_def collapse_values_def
  dict_update_def show_help_def expand_args_def expand_arg_def
  is_named_arg_def is_positional_arg_def is_short_alias_arg_def is_long_alias_arg_def
  is_short_expandable_arg_def is_named_def is_positional_def
  NAMED_ARGUMENTS_STOP_TOKEN_def NAMED_ARGUMENT_INLINE_VALUE_SEPARATOR_def
  Arg_def default_command_def str_value_parser_def enumerate_eq_zip


subsection \<open>The accessors check the action\<close>

text \<open>
  Claim C10. For an identifier that was not parsed every accessor returns \<^verbatim>\<open>None\<close>. For a
  parsed argument, \<open>get_any\<close> returns the stored value whatever the action is; \<open>get_one\<close>
  and \<open>get_many\<close> fail (their assertion does) when the action is StoreTrue, StoreFalse or
  Count; \<open>get_flag\<close> fails for every action other than StoreTrue and StoreFalse; \<open>get_count\<close>
  fails for every action other than Count.
\<close>

theorem accessors_check_action:
  "(case map_of (parsed_arguments pc) i of
      None \<Rightarrow>
        get_any pc i = PNone \<and> get_one pc i = Inr PNone \<and> get_many pc i force = Inr PNone \<and>
        get_flag pc i = Inr PNone \<and> get_count pc i = Inr PNone
    | Some pa \<Rightarrow>
        get_any pc i = parsed_value pa \<and>
        (parsed_action pa \<in> {StoreTrue, StoreFalse, Count} \<longrightarrow>
           get_one pc i = Inl Assertion_failed \<and> get_many pc i force = Inl Assertion_failed) \<and>
        (parsed_action pa \<notin> {StoreTrue, StoreFalse} \<longrightarrow> get_flag pc i = Inl Assertion_failed) \<and>
        (parsed_action pa \<noteq> Count \<longrightarrow> get_count pc i = Inl Assertion_failed))"
  by (auto simp: get_any_def get_one_def get_many_def get_flag_def get_count_def
      split: option.splits)

theorem accessors_check_action_witness:
  "get_any (ParsedCommand ''app'' [(''v'', ParsedArg (PInt 3) Count)] None) ''v'' = PInt 3 \<and>
   get_one (ParsedCommand ''app'' [(''v'', ParsedArg (PInt 3) Count)] None) ''v''
     = Inl Assertion_failed \<and>
   get_many (ParsedCommand ''app'' [(''v'', ParsedArg (PInt 3) Count)] None) ''v'' True
     = Inl Assertion_failed \<and>
   get_flag (ParsedCommand ''app'' [(''v'', ParsedArg (PInt 3) Count)] None) ''v''
     = Inl Assertion_failed"
  using accessors_check_action
    [of "ParsedCommand ''app'' [(''v'', ParsedArg (PInt 3) Count)] None" "''v''" True]
  by simp

subsection \<open>Parsing errors end the process\<close>

text \<open>
  Claim C1 at its failing input. For the command without arguments and the token
  \<^verbatim>\<open>--bogus\<close> the body of \<open>parse_from\<close> raises the parsing error for unknown extra
  arguments. The claim, and the tests of the repository, which call \<open>parse_from\<close> inside
  \<^verbatim>\<open>pytest.raises(ClapyParsingError)\<close>, expect that error at the caller; the handler of
  \<open>parse_from\<close> prints its message and raises \<^verbatim>\<open>SystemExit\<close> instead.
\<close>

theorem parse_from_exits_on_parsing_error:
  "parse_from_try (default_command ''app'' [] []) [''--bogus'']
     = Inl (ClapyParsingError (Unknown_extra_arguments [''--bogus''])) \<and>
   parse_from (default_command ''app'' [] []) [''--bogus'']
     = Inl (SystemExit (Error_printed (Unknown_extra_arguments [''--bogus''])))"
  by (simp add: parse_defs)

text \<open>
  The same holds for every command, token list and parsing error: what the body raises,
  \<open>parse_from\<close> prints and turns into an exit, so no parsing error reaches a caller.
\<close>

lemma parse_from_prints_and_exits:
  "(parse_from_try c args = Inl (ClapyParsingError e) \<longrightarrow>
      parse_from c args = Inl (SystemExit (Error_printed e))) \<and>
   parse_from c args \<noteq> Inl (ClapyParsingError e')"
  by (auto simp: parse_from_def split: sum.splits exn.splits)

subsection \<open>An Append argument given through both aliases\<close>

text \<open>
  Claim C2 at its failing input: an Append argument with the aliases \<^verbatim>\<open>-t\<close> and \<^verbatim>\<open>--tag\<close>,
  given once through each, is rejected as a repeated argument, although the same argument
  given twice through \<^verbatim>\<open>--tag\<close> yields both values in the order of the command line.
\<close>

theorem append_mixed_aliases_rejected:
  "parse_from_try
     (default_command ''app''
        [(Arg ''tag'')\<lparr>short := Some ''-t'', long := Some ''--tag'', action := Append\<rparr>] [])
     [''-t'', ''a'', ''--tag'', ''b'']
     = Inl (ClapyParsingError (Repeated_argument ''--tag'')) \<and>
   parse_from_try
     (default_command ''app''
        [(Arg ''tag'')\<lparr>short := Some ''-t'', long := Some ''--tag'', action := Append\<rparr>] [])
     [''--tag'', ''a'', ''--tag'', ''b'']
     = Inr (ParsedCommand ''app''
         [(''tag'', ParsedArg (PTuple [PStr ''a'', PStr ''b'']) Append)] None)"
  by (simp add: parse_defs)

subsection \<open>The empty token list\<close>

text \<open>
  Claim C4 says that the empty token list, for a command with subcommands and a mandatory
  subcommand and without help on empty input, fails with the error that names the
  subcommands. The check for a command without arguments comes first and raises its own
  error.
\<close>

theorem empty_input_counterexample:
  "parse_from_try
     (Command ''app'' True False [''--help'', ''-h''] [] [(''run'', default_command ''run'' [] [])]) []
     = Inl (ClapyParsingError (No_arguments_supplied ''app''))"
  by (simp add: parse_defs)

text \<open>
  Claim C4, as the code has it: for every command, with or without subcommands, the empty
  token list shows the help of the command when \<open>no_args_requests_help\<close> is set, and
  otherwise fails with the error \<^verbatim>\<open>No arguments supplied for command\<close>, which names the
  command and not its subcommands; \<open>parse_from\<close> prints that error and exits.
\<close>

theorem empty_input_outcome:
  "parse_from_try c [] =
     (if no_args_requests_help c then Inl (SystemExit (Help_shown (name c)))
      else Inl (ClapyParsingError (No_arguments_supplied (name c)))) \<and>
   parse_from c [] =
     (if no_args_requests_help c then Inl (SystemExit (Help_shown (name c)))
      else Inl (SystemExit (Error_printed (No_arguments_supplied (name c)))))"
  by (simp add: parse_from_def parse_from_try_def discover_command_path_def show_help_def
      expand_args_def)

theorem empty_input_outcome_witness:
  "parse_from
     (Command ''app'' True False [''--help'', ''-h''] [] [(''run'', default_command ''run'' [] [])]) []
     = Inl (SystemExit (Error_printed (No_arguments_supplied ''app''))) \<and>
   parse_from
     (Command ''app'' True True [''--help'', ''-h''] [] [(''run'', default_command ''run'' [] [])]) []
     = Inl (SystemExit (Help_shown ''app''))"
  using empty_input_outcome
    [of "Command ''app'' True False [''--help'', ''-h''] [] [(''run'', default_command ''run'' [] [])]"]
    empty_input_outcome
    [of "Command ''app'' True True [''--help'', ''-h''] [] [(''run'', default_command ''run'' [] [])]"]
  by simp

subsection \<open>Too few values before the end of the token list\<close>

text \<open>
  Claim C5 at its failing input: an argument that needs two values and is followed by one
  value and the end of the token list is accepted with that one value. The same argument
  followed by one value and the marker \<^verbatim>\<open>--\<close> is rejected for its missing value.
\<close>

theorem too_few_values_at_end_accepted:
  "parse_from (default_command ''app'' [(Arg ''pair'')\<lparr>long := Some ''--pair'', nargs := NInt 2\<rparr>] [])
     [''--pair'', ''a'']
     = Inr (ParsedCommand ''app'' [(''pair'', ParsedArg (PStr ''a'') Set)] None) \<and>
   parse_from_try (default_command ''app'' [(Arg ''pair'')\<lparr>long := Some ''--pair'', nargs := NInt 2\<rparr>] [])
     [''--pair'', ''a'', ''--'']
     = Inl (ClapyParsingError (Missing_argument_values ''--pair'' 1 2))"
  by (simp add: parse_defs)

subsection \<open>The scenario of a range arity\<close>

text \<open>
  Claim C6. A command whose only argument is the Set argument \<^verbatim>\<open>--sources\<close> with arity
  \<^verbatim>\<open>range(1, 3)\<close>, given the tokens \<^verbatim>\<open>--sources a b c d\<close>: the values consumed are
  \<^verbatim>\<open>a\<close>, \<^verbatim>\<open>b\<close>, \<^verbatim>\<open>c\<close>, the token \<^verbatim>\<open>d\<close> is left, and the parse fails with the error for
  unknown extra arguments that names \<^verbatim>\<open>d\<close> (which \<open>parse_from\<close> prints before it exits).
\<close>

theorem range_arity_scenario:
  "parse_and_consume_values [''a'', ''b'', ''c'', ''d'']
     ((Arg i)\<lparr>long := Some ''--sources'', nargs := NRange 1 3\<rparr>) ''--sources''
     = Inr ([''a'', ''b'', ''c''], [''d'']) \<and>
   parse_from_try
     (default_command n [(Arg i)\<lparr>long := Some ''--sources'', nargs := NRange 1 3\<rparr>] [])
     [''--sources'', ''a'', ''b'', ''c'', ''d'']
     = Inl (ClapyParsingError (Unknown_extra_arguments [''d''])) \<and>
   parse_from
     (default_command n [(Arg i)\<lparr>long := Some ''--sources'', nargs := NRange 1 3\<rparr>] [])
     [''--sources'', ''a'', ''b'', ''c'', ''d'']
     = Inl (SystemExit (Error_printed (Unknown_extra_arguments [''d''])))"
  by (simp add: parse_defs)

subsection \<open>Tokens with the same expansion\<close>

text \<open>
  Discovery looks at the raw tokens for help options and subcommand names and expands
  them afterwards. Replacing a token by tokens with the same expansion therefore leaves a
  parse unchanged as long as discovery reacts to none of the tokens involved.
\<close>

lemma expand_args_append: "expand_args (xs @ ys) = expand_args xs @ expand_args ys"
  by (simp add: expand_args_def)

lemma all_commands_sub:
  "map_of (subcommands c) a = Some s \<Longrightarrow> set (all_commands s) \<subseteq> set (all_commands c)"
proof -
  assume "map_of (subcommands c) a = Some s"
  then have "(a, s) \<in> set (subcommands c)" by (rule map_of_SomeD)
  then show ?thesis by (cases c) force
qed

lemma self_in_all_commands: "c \<in> set (all_commands c)"
  by (cases c) simp

text \<open>The segment collected so far matters to discovery only through its expansion.\<close>

lemma scan_seg_expanded:
  "expand_args seg = expand_args seg' \<Longrightarrow>
   map_sum id (map_prod id (map expand_args)) (scan_command_path cur seg args) =
   map_sum id (map_prod id (map expand_args)) (scan_command_path cur seg' args)"
proof (induction args arbitrary: cur seg seg')
  case Nil
  then show ?case by simp
next
  case (Cons a args)
  have step: "expand_args (seg @ [a]) = expand_args (seg' @ [a])"
    using Cons.prems by (simp add: expand_args_append)
  show ?case
    using Cons.IH [OF step, of cur] Cons.prems
    by (auto split: option.splits sum.splits)
qed


text \<open>
  Tokens that are neither a help option nor a subcommand name of the current command are
  added to its segment.
\<close>

lemma scan_passes_tokens:
  "\<forall>u \<in> set ts. (if is_named_arg u then u \<notin> set (help_options cur)
                    else map_of (subcommands cur) u = None) \<Longrightarrow>
   scan_command_path cur seg (ts @ ys) = scan_command_path cur (seg @ ts) ys"
  by (induction ts arbitrary: seg) auto

text \<open>
  Replacing one token by tokens with the same expansion, none of which discovery reacts
  to, changes neither the command chain nor the expanded segments.
\<close>

lemma scan_replace_token:
  assumes "\<forall>c \<in> set (all_commands cur). \<forall>u \<in> set (t # ts).
             (if is_named_arg u then u \<notin> set (help_options c)
              else map_of (subcommands c) u = None)"
    and "expand_arg t = expand_args ts"
  shows "map_sum id (map_prod id (map expand_args)) (scan_command_path cur seg (xs @ t # ys)) =
         map_sum id (map_prod id (map expand_args)) (scan_command_path cur seg (xs @ ts @ ys))"
  using assms(1)
proof (induction xs arbitrary: cur seg)
  case Nil
  have here: "\<forall>u \<in> set (t # ts). (if is_named_arg u then u \<notin> set (help_options cur)
                    else map_of (subcommands cur) u = None)"
    using Nil self_in_all_commands [of cur] by blast
  have l: "scan_command_path cur seg (t # ys) = scan_command_path cur (seg @ [t]) ys"
    using scan_passes_tokens [of "[t]" cur seg ys] here by simp
  have r: "scan_command_path cur seg (ts @ ys) = scan_command_path cur (seg @ ts) ys"
    by (rule scan_passes_tokens) (use here in simp)
  have "expand_args (seg @ [t]) = expand_args (seg @ ts)"
    using assms(2) by (simp add: expand_args_def)
  from scan_seg_expanded [OF this, of cur ys] show ?case
    by (simp only: l r append_Nil)
next
  case (Cons a xs)
  show ?case
  proof (cases "is_named_arg a")
    case True
    then show ?thesis using Cons.IH [OF Cons.prems] by simp
  next
    case False
    show ?thesis
    proof (cases "map_of (subcommands cur) a")
      case None
      then show ?thesis using False Cons.IH [OF Cons.prems] by simp
    next
      case (Some sub)
      have "\<forall>c \<in> set (all_commands sub). \<forall>u \<in> set (t # ts).
             (if is_named_arg u then u \<notin> set (help_options c)
              else map_of (subcommands c) u = None)"
        using Cons.prems all_commands_sub [OF Some] by blast
      from Cons.IH [OF this, of "[]"] show ?thesis
        using False Some by (auto split: sum.splits)
    qed
  qed
qed

lemma discover_replace_token:
  assumes "\<forall>c \<in> set (all_commands root). \<forall>u \<in> set (t # ts).
             (if is_named_arg u then u \<notin> set (help_options c)
              else map_of (subcommands c) u = None)"
    and "expand_arg t = expand_args ts"
  shows "discover_command_path root (xs @ t # ys) = discover_command_path root (xs @ ts @ ys)"
proof -
  have shape: "discover_command_path c args =
     (case map_sum id (map_prod id (map expand_args)) (scan_command_path c [] args) of
        Inl e \<Rightarrow> Inl e
      | Inr (command_chain, subarg_lists) \<Rightarrow>
           if length command_chain \<noteq> length subarg_lists then Inl AssertionError
           else
             (case check_no_args command_chain subarg_lists of
                Inl e \<Rightarrow> Inl e
              | Inr _ \<Rightarrow>
                  if mandatory_subcommand (last command_chain) \<and>
                     length (subcommands (last command_chain)) > 0
                  then Inl (ClapyParsingError
                         (Mandatory_subcommand_expected (name (last command_chain))
                            (map fst (subcommands (last command_chain)))))
                  else Inr (command_chain, subarg_lists)))" for c args
    by (cases "scan_command_path c [] args")
      (auto simp: discover_command_path_def Let_def split: prod.splits)
  show ?thesis
    unfolding shape scan_replace_token [OF assms, of "[]" xs ys] ..
qed

lemma parse_from_replace_token:
  assumes "\<forall>c \<in> set (all_commands root). \<forall>u \<in> set (t # ts).
             (if is_named_arg u then u \<notin> set (help_options c)
              else map_of (subcommands c) u = None)"
    and "expand_arg t = expand_args ts"
  shows "parse_from root (xs @ t # ys) = parse_from root (xs @ ts @ ys)"
  by (simp add: parse_from_def parse_from_try_def discover_replace_token [OF assms])


lemma long_alias_not_expandable: "is_long_alias_arg a \<Longrightarrow> \<not> is_short_expandable_arg a"
  by (auto simp: is_long_alias_arg_def is_short_expandable_arg_def split: list.splits)

lemma long_alias_with_value:
  "is_long_alias_arg opt \<Longrightarrow> CHR 0x0A \<notin> set v \<Longrightarrow> is_long_alias_arg (opt @ CHR ''='' # v)"
  by (auto simp: is_long_alias_arg_def split: list.splits)

lemma expand_inline_value:
  assumes "is_long_alias_arg opt" "CHR ''='' \<notin> set opt" "CHR 0x0A \<notin> set v"
  shows "expand_arg (opt @ CHR ''='' # v) = [opt, v]"
proof -
  have "is_named_arg (opt @ CHR ''='' # v)"
    using long_alias_with_value [OF assms(1,3)] by (simp add: is_named_arg_def)
  moreover have "takeWhile (\<lambda>c. c \<noteq> CHR ''='') (opt @ CHR ''='' # v) = opt"
    using assms(2) by (induction opt) auto
  moreover have "dropWhile (\<lambda>c. c \<noteq> CHR ''='') (opt @ CHR ''='' # v) = CHR ''='' # v"
    using assms(2) by (induction opt) auto
  ultimately show ?thesis
    by (simp add: expand_arg_def NAMED_ARGUMENT_INLINE_VALUE_SEPARATOR_def)
qed

lemma expand_long_alias:
  assumes "is_long_alias_arg opt" "CHR ''='' \<notin> set opt"
  shows "expand_arg opt = [opt]"
  using assms long_alias_not_expandable [OF assms(1)]
  by (simp add: expand_arg_def NAMED_ARGUMENT_INLINE_VALUE_SEPARATOR_def)




text \<open>
  Claim C8 says that \<^verbatim>\<open>--opt=value\<close> and \<^verbatim>\<open>--opt value\<close> always have the same outcome.
  When the value is the name of a subcommand, the separate token is taken as that
  subcommand by discovery, and the inline value is not.
\<close>

theorem inline_value_counterexample:
  "parse_from
     (Command ''app'' False True [''--help'', ''-h'']
        [(Arg ''opt'')\<lparr>long := Some ''--opt''\<rparr>] [(''run'', default_command ''run'' [] [])])
     [''--opt=run'']
     = Inr (ParsedCommand ''app'' [(''opt'', ParsedArg (PStr ''run'') Set)] None) \<and>
   parse_from
     (Command ''app'' False True [''--help'', ''-h'']
        [(Arg ''opt'')\<lparr>long := Some ''--opt''\<rparr>] [(''run'', default_command ''run'' [] [])])
     [''--opt'', ''run'']
     = Inl (SystemExit (Help_shown ''run''))"
  by (simp add: parse_defs)

text \<open>
  Claim C8, as the code has it. Let \<open>opt\<close> be a long alias without an equals sign and \<open>v\<close> a
  value without a newline that expansion leaves as it is. If no command of the tree has
  \<open>opt\<close> or the token \<^verbatim>\<open>opt=v\<close> among its help options, and \<open>v\<close> is neither a help option
  (when it has the form of a named token) nor a subcommand name (when it has not) of a
  command of the tree, then a token list with \<^verbatim>\<open>opt=v\<close> and the same list with the two
  tokens \<open>opt\<close> and \<open>v\<close> in its place have the same outcome, result or error.
\<close>

theorem inline_value_expansion:
  assumes "is_long_alias_arg opt" and "CHR ''='' \<notin> set opt"
    and "CHR 0x0A \<notin> set v" and "expand_arg v = [v]"
    and "\<forall>c \<in> set (all_commands root).
           opt \<notin> set (help_options c) \<and> opt @ ''='' @ v \<notin> set (help_options c) \<and>
           (if is_named_arg v then v \<notin> set (help_options c)
            else map_of (subcommands c) v = None)"
  shows "parse_from root (xs @ (opt @ ''='' @ v) # ys) = parse_from root (xs @ opt # v # ys)"
proof -
  have named: "is_named_arg (opt @ ''='' @ v)" "is_named_arg opt"
    using long_alias_with_value [OF assms(1,3)] assms(1) by (simp_all add: is_named_arg_def)
  have "\<forall>c \<in> set (all_commands root). \<forall>u \<in> set ((opt @ ''='' @ v) # [opt, v]).
          (if is_named_arg u then u \<notin> set (help_options c)
           else map_of (subcommands c) u = None)"
    using assms(5) named by auto
  moreover have "expand_arg (opt @ ''='' @ v) = expand_args [opt, v]"
    using expand_inline_value [OF assms(1-3)] expand_long_alias [OF assms(1,2)] assms(4)
    by (simp add: expand_args_def)
  ultimately show ?thesis
    using parse_from_replace_token [of root "opt @ ''='' @ v" "[opt, v]" xs ys] by simp
qed

theorem inline_value_expansion_witness:
  "parse_from (default_command ''app'' [(Arg ''opt'')\<lparr>long := Some ''--opt''\<rparr>] []) [''--opt=x'']
   = parse_from (default_command ''app'' [(Arg ''opt'')\<lparr>long := Some ''--opt''\<rparr>] [])
       [''--opt'', ''x''] \<and>
   parse_from (default_command ''app'' [(Arg ''opt'')\<lparr>long := Some ''--opt''\<rparr>] []) [''--opt=x'']
   = Inr (ParsedCommand ''app'' [(''opt'', ParsedArg (PStr ''x'') Set)] None)"
proof -
  let ?cmd0 = "default_command ''app'' [(Arg ''opt'')\<lparr>long := Some ''--opt''\<rparr>] []"
  have 1: "is_long_alias_arg ''--opt''" by (simp add: is_long_alias_arg_def)
  have 2: "CHR ''='' \<notin> set ''--opt''" by simp
  have 3: "CHR 0x0A \<notin> set ''x''" by simp
  have 4: "expand_arg ''x'' = [''x'']" by (simp add: parse_defs)
  have 5: "\<forall>c \<in> set (all_commands ?cmd0).
           ''--opt'' \<notin> set (help_options c) \<and> ''--opt'' @ ''='' @ ''x'' \<notin> set (help_options c) \<and>
           (if is_named_arg ''x'' then ''x'' \<notin> set (help_options c)
            else map_of (subcommands c) ''x'' = None)"
    by (simp add: parse_defs)
  from inline_value_expansion [OF 1 2 3 4 5, of "[]" "[]"]
  have "parse_from ?cmd0 [''--opt=x''] = parse_from ?cmd0 [''--opt'', ''x'']" by simp
  moreover have "parse_from ?cmd0 [''--opt'', ''x'']
      = Inr (ParsedCommand ''app'' [(''opt'', ParsedArg (PStr ''x'') Set)] None)"
    by (simp add: parse_defs)
  ultimately show ?thesis by simp
qed

subsection \<open>Defaults are stored as they are\<close>







lemma consume_values_loop_rest:
  "consume_values_loop mn mx nm vs xs = Inr (v, r) \<Longrightarrow> set r \<subseteq> set xs"
  by (induction xs arbitrary: vs) (fastforce split: if_splits)+

lemma parse_and_consume_values_rest:
  "parse_and_consume_values xs d nm = Inr (v, r) \<Longrightarrow> set r \<subseteq> set xs"
  by (auto simp: parse_and_consume_values_def split: arg_action.splits prod.splits
      dest: consume_values_loop_rest)

lemma consume_named_keys:
  "consume_named am c kept rest = Inr (c', kept') \<Longrightarrow>
   fst ` set c' \<subseteq> fst ` set c \<union> set rest"
proof (induction am c kept rest rule: consume_named.induct)
  case (1 alias_map consumed kept)
  then show ?case by auto
next
  case (2 alias_map consumed kept arg rest)
  show ?case
  proof (cases "is_named_arg arg \<and> map_of alias_map arg \<noteq> None")
    case False
    then have rec: "consume_named alias_map consumed (kept @ [arg]) rest = Inr (c', kept')"
      using "2.prems" by (auto split: option.splits)
    have "fst ` set c' \<subseteq> fst ` set consumed \<union> set rest"
    proof (cases "is_named_arg arg")
      case True
      with False have "map_of alias_map arg = None" by simp
      from "2.IH"(1) [OF True this rec] show ?thesis .
    next
      case n: False
      from "2.IH"(3) [OF n rec] show ?thesis .
    qed
    then show ?thesis by auto
  next
    case True
    then obtain d where d: "map_of alias_map arg = Some d" and n: "is_named_arg arg" by auto
    from "2.prems" d n obtain vals rest' where
      v: "parse_and_consume_values rest d arg = Inr (vals, rest')" and
      r: "consume_named alias_map
            (AList.map_default arg [vals] (\<lambda>groups. groups @ [vals]) consumed) kept rest'
          = Inr (c', kept')"
      by (auto split: sum.splits)
    from "2.IH"(2) [OF n d v refl r]
    have "fst ` set c' \<subseteq>
          fst ` set (AList.map_default arg [vals] (\<lambda>groups. groups @ [vals]) consumed)
          \<union> set rest'" .
    with parse_and_consume_values_rest [OF v] show ?thesis
      by (auto simp: dom_map_default)
  qed
qed





































subsection \<open>A Set argument given twice\<close>

text \<open>
  Claim C3 says that a Set argument given twice always fails with the error for a repeated
  argument. When the two occurrences use different aliases, the values of the first alias
  are converted and checked before the second alias is looked at, so a value of the first
  occurrence that is not allowed is reported instead.
\<close>

theorem repeated_set_counterexample:
  "parse_from_try
     (default_command ''app''
        [(Arg ''num'')\<lparr>short := Some ''-n'', long := Some ''--num'',
            valid_values := Some [PStr ''1'']\<rparr>] [])
     [''-n'', ''x'', ''--num'', ''1'']
     = Inl (ClapyParsingError (Invalid_named_value ''-n'' (PStr ''x'') [''1'']))"
  by (simp add: parse_defs py_in_def)

text \<open>The loop over the consumed aliases, taken apart at any position.\<close>

lemma parse_consumed_append:
  "parse_consumed am ids parsed (pre @ rest) =
     (case parse_consumed am ids parsed pre of
        Inl e \<Rightarrow> Inl e
      | Inr (ids', parsed') \<Rightarrow> parse_consumed am ids' parsed' rest)"
  by (induction pre arbitrary: ids parsed) (auto split: option.splits sum.splits)

lemma parse_consumed_keeps_removed:
  "parse_consumed am ids parsed cons = Inr (ids', parsed') \<Longrightarrow>
   map_of ids k = None \<Longrightarrow> map_of ids' k = None"
  by (induction cons arbitrary: ids parsed)
     (auto simp: AList.delete_conv' split: option.splits sum.splits if_splits)

lemma parse_consumed_removes:
  "parse_consumed am ids parsed cons = Inr (ids', parsed') \<Longrightarrow>
   (a, g) \<in> set cons \<Longrightarrow> map_of am a = Some d \<Longrightarrow> map_of ids' (arg_id d) = None"
proof (induction cons arbitrary: ids parsed)
  case Nil
  then show ?case by simp
next
  case (Cons entry cons)
  obtain a0 g0 where entry: "entry = (a0, g0)" by (cases entry)
  from Cons.prems(1) entry obtain d0 pa where
    d0: "map_of am a0 = Some d0" and
    rest: "parse_consumed am (AList.delete (arg_id d0) ids)
             (AList.update (arg_id d0) pa parsed) cons = Inr (ids', parsed')"
    by (auto split: option.splits sum.splits if_splits)
  show ?case
  proof (cases "(a, g) \<in> set cons")
    case True
    from Cons.IH [OF rest True Cons.prems(3)] show ?thesis .
  next
    case False
    with Cons.prems(2) entry have "a0 = a" by simp
    with d0 Cons.prems(3) have "d0 = d" by simp
    then have "map_of (AList.delete (arg_id d0) ids) (arg_id d) = None"
      by (simp add: AList.delete_conv')
    from parse_consumed_keeps_removed [OF rest this] show ?thesis .
  qed
qed

lemma parse_consumed_repeated:
  assumes "map_of am alias = Some d"
    and "action d = Set \<and> 1 < length groups \<or> map_of ids (arg_id d) = None"
  shows "parse_consumed am ids parsed ((alias, groups) # post)
           = Inl (ClapyParsingError (Repeated_argument alias))"
  using assms by (auto simp: parse_named_value_def)

text \<open>The values taken for an argument are tokens that are not named.\<close>

lemma consume_values_loop_taken:
  "consume_values_loop mn mx nm vs xs = Inr (v, r) \<Longrightarrow>
   \<exists>taken. xs = taken @ r \<and> (\<forall>t \<in> set taken. \<not> is_named_arg t)"
proof (induction xs arbitrary: vs)
  case Nil
  then show ?case by simp
next
  case (Cons x xs)
  show ?case
  proof (cases "is_named_arg x \<or> x = NAMED_ARGUMENTS_STOP_TOKEN")
    case True
    with Cons.prems have "r = x # xs" by (auto split: if_splits)
    then show ?thesis by simp
  next
    case False
    show ?thesis
    proof (cases "mx \<noteq> None \<and> Some (int (length (vs @ [x]))) = mx")
      case True
      with False Cons.prems have "r = xs" by auto
      with False show ?thesis by (intro exI [of _ "[x]"]) simp
    next
      case continue: False
      with False Cons.prems
      have "consume_values_loop mn mx nm (vs @ [x]) xs = Inr (v, r)" by auto
      from Cons.IH [OF this] obtain taken where
        "xs = taken @ r" "\<forall>t \<in> set taken. \<not> is_named_arg t" by blast
      with False show ?thesis by (intro exI [of _ "x # taken"]) simp
    qed
  qed
qed

lemma parse_and_consume_values_taken:
  assumes "parse_and_consume_values xs d nm = Inr (v, r)"
  shows "\<exists>taken. xs = taken @ r \<and> (\<forall>t \<in> set taken. \<not> is_named_arg t)"
proof (cases "action d \<in> {StoreTrue, StoreFalse, Count}")
  case True
  with assms have "r = xs"
    by (auto simp: parse_and_consume_values_def)
  then show ?thesis by simp
next
  case False
  with assms obtain mn mx where "consume_values_loop mn mx nm [] xs = Inr (v, r)"
    by (cases "nargs_bounds (nargs d)")
       (auto simp: parse_and_consume_values_def split: arg_action.splits)
  from consume_values_loop_taken [OF this] show ?thesis .
qed

lemma count_after_values:
  assumes "parse_and_consume_values xs d nm = Inr (v, r)" and "is_named_arg a"
  shows "count_list xs a = count_list r a"
proof -
  from parse_and_consume_values_taken [OF assms(1)] obtain taken where
    t: "xs = taken @ r" "\<forall>t \<in> set taken. \<not> is_named_arg t" by blast
  with assms(2) have "a \<notin> set taken" by blast
  with t(1) show ?thesis by simp
qed

lemma before_after_values:
  assumes "parse_and_consume_values xs d nm = Inr (v, r)"
    and "is_named_arg a" and "is_named_arg b"
    and "b \<in> set (takeWhile (\<lambda>t. t \<noteq> a) xs)"
  shows "b \<in> set (takeWhile (\<lambda>t. t \<noteq> a) r)"
proof -
  from parse_and_consume_values_taken [OF assms(1)] obtain taken where
    t: "xs = taken @ r" "\<forall>t \<in> set taken. \<not> is_named_arg t" by blast
  with assms(2,3) have "a \<notin> set taken" "b \<notin> set taken" by blast+
  with t(1) assms(4) show ?thesis
    by (auto simp: takeWhile_append split: if_splits dest: set_takeWhileD)
qed

text \<open>The number of groups recorded under an alias, and the order of the aliases.\<close>

lemma groups_map_default:
  "case_option 0 length (map_of (AList.map_default a [v] (\<lambda>g. g @ [v]) c) k)
     = (if k = a then Suc (case_option 0 length (map_of c a))
        else case_option 0 length (map_of c k))"
  by (simp add: map_of_map_default split: option.splits)

lemma keys_map_default:
  "map fst (AList.map_default a v f c)
     = (if a \<in> fst ` set c then map fst c else map fst c @ [a])"
  by (induction c) auto

lemma before_map_default:
  "b \<in> set (takeWhile (\<lambda>t. t \<noteq> a) (map fst c)) \<Longrightarrow>
   b \<in> set (takeWhile (\<lambda>t. t \<noteq> a) (map fst (AList.map_default k v f c)))"
  by (auto simp: keys_map_default takeWhile_append dest: set_takeWhileD)

text \<open>Every occurrence of a known alias among the tokens is recorded by the scan.\<close>

lemma consume_named_count:
  "consume_named am c kept rest = Inr (c', kept') \<Longrightarrow>
   is_named_arg a \<Longrightarrow> map_of am a \<noteq> None \<Longrightarrow>
   case_option 0 length (map_of c' a) = case_option 0 length (map_of c a) + count_list rest a"
proof (induction am c kept rest rule: consume_named.induct)
  case (1 alias_map consumed kept)
  then show ?case by simp
next
  case (2 alias_map consumed kept arg rest)
  note named = "2.prems"(2) and known = "2.prems"(3)
  show ?case
  proof (cases "is_named_arg arg \<and> map_of alias_map arg \<noteq> None")
    case False
    then have rec: "consume_named alias_map consumed (kept @ [arg]) rest = Inr (c', kept')"
      using "2.prems"(1) by (auto split: option.splits)
    from False named known have ne: "arg \<noteq> a" by auto
    have "case_option 0 length (map_of c' a)
        = case_option 0 length (map_of consumed a) + count_list rest a"
    proof (cases "is_named_arg arg")
      case True
      with False have "map_of alias_map arg = None" by simp
      from "2.IH"(1) [OF True this rec named known] show ?thesis .
    next
      case n: False
      from "2.IH"(3) [OF n rec named known] show ?thesis .
    qed
    with ne show ?thesis by simp
  next
    case True
    then obtain d where d: "map_of alias_map arg = Some d" and n: "is_named_arg arg" by auto
    from "2.prems"(1) d n obtain vals rest' where
      v: "parse_and_consume_values rest d arg = Inr (vals, rest')" and
      r: "consume_named alias_map
            (AList.map_default arg [vals] (\<lambda>groups. groups @ [vals]) consumed) kept rest'
          = Inr (c', kept')"
      by (auto split: sum.splits)
    from "2.IH"(2) [OF n d v refl r named known]
    have "case_option 0 length (map_of c' a)
        = case_option 0 length
            (map_of (AList.map_default arg [vals] (\<lambda>groups. groups @ [vals]) consumed) a)
          + count_list rest' a" .
    with count_after_values [OF v named] show ?thesis
      by (simp add: groups_map_default)
  qed
qed

lemma consume_named_lists_count:
  "consume_named_lists am c segs = Inr (c', segs') \<Longrightarrow>
   is_named_arg a \<Longrightarrow> map_of am a \<noteq> None \<Longrightarrow>
   case_option 0 length (map_of c' a)
     = case_option 0 length (map_of c a) + count_list (concat segs) a"
proof (induction segs arbitrary: c c' segs')
  case Nil
  then show ?case by auto
next
  case (Cons l segs)
  from Cons.prems(1) obtain c1 l' ls' where
    one: "consume_named am c [] l = Inr (c1, l')" and
    others: "consume_named_lists am c1 segs = Inr (c', ls')"
    by (auto split: sum.splits)
  from consume_named_count [OF one Cons.prems(2,3)] Cons.IH [OF others Cons.prems(2,3)]
  show ?case by simp
qed

text \<open>The aliases are recorded in the order of their first occurrence.\<close>

lemma consume_named_before_mono:
  "consume_named am c kept rest = Inr (c', kept') \<Longrightarrow>
   b \<in> set (takeWhile (\<lambda>t. t \<noteq> a) (map fst c)) \<Longrightarrow>
   b \<in> set (takeWhile (\<lambda>t. t \<noteq> a) (map fst c'))"
proof (induction am c kept rest rule: consume_named.induct)
  case (1 alias_map consumed kept)
  then show ?case by simp
next
  case (2 alias_map consumed kept arg rest)
  show ?case
  proof (cases "is_named_arg arg \<and> map_of alias_map arg \<noteq> None")
    case False
    then have rec: "consume_named alias_map consumed (kept @ [arg]) rest = Inr (c', kept')"
      using "2.prems"(1) by (auto split: option.splits)
    show ?thesis
    proof (cases "is_named_arg arg")
      case True
      with False have "map_of alias_map arg = None" by simp
      from "2.IH"(1) [OF True this rec "2.prems"(2)] show ?thesis .
    next
      case n: False
      from "2.IH"(3) [OF n rec "2.prems"(2)] show ?thesis .
    qed
  next
    case True
    then obtain d where d: "map_of alias_map arg = Some d" and n: "is_named_arg arg" by auto
    from "2.prems"(1) d n obtain vals rest' where
      v: "parse_and_consume_values rest d arg = Inr (vals, rest')" and
      r: "consume_named alias_map
            (AList.map_default arg [vals] (\<lambda>groups. groups @ [vals]) consumed) kept rest'
          = Inr (c', kept')"
      by (auto split: sum.splits)
    from "2.IH"(2) [OF n d v refl r before_map_default [OF "2.prems"(2)]]
    show ?thesis .
  qed
qed

lemma consume_named_lists_before_mono:
  "consume_named_lists am c segs = Inr (c', segs') \<Longrightarrow>
   b \<in> set (takeWhile (\<lambda>t. t \<noteq> a) (map fst c)) \<Longrightarrow>
   b \<in> set (takeWhile (\<lambda>t. t \<noteq> a) (map fst c'))"
proof (induction segs arbitrary: c c' segs')
  case Nil
  then show ?case by auto
next
  case (Cons l segs)
  from Cons.prems(1) obtain c1 l' ls' where
    one: "consume_named am c [] l = Inr (c1, l')" and
    others: "consume_named_lists am c1 segs = Inr (c', ls')"
    by (auto split: sum.splits)
  from Cons.IH [OF others consume_named_before_mono [OF one Cons.prems(2)]]
  show ?case .
qed

lemma consume_named_before:
  "consume_named am c kept rest = Inr (c', kept') \<Longrightarrow>
   is_named_arg a \<Longrightarrow> is_named_arg b \<Longrightarrow> map_of am b \<noteq> None \<Longrightarrow>
   a \<notin> fst ` set c \<Longrightarrow> b \<in> set (takeWhile (\<lambda>t. t \<noteq> a) rest) \<Longrightarrow>
   b \<in> set (takeWhile (\<lambda>t. t \<noteq> a) (map fst c'))"
proof (induction am c kept rest rule: consume_named.induct)
  case (1 alias_map consumed kept)
  then show ?case by simp
next
  case (2 alias_map consumed kept arg rest)
  note a = "2.prems"(2) and b = "2.prems"(3) and known = "2.prems"(4)
    and fresh = "2.prems"(5)
  from "2.prems"(6) have ne: "arg \<noteq> a"
    and here: "b = arg \<or> b \<in> set (takeWhile (\<lambda>t. t \<noteq> a) rest)"
    by (auto split: if_splits)
  show ?case
  proof (cases "is_named_arg arg \<and> map_of alias_map arg \<noteq> None")
    case False
    then have rec: "consume_named alias_map consumed (kept @ [arg]) rest = Inr (c', kept')"
      using "2.prems"(1) by (auto split: option.splits)
    from False b known have "b \<noteq> arg" by auto
    with here have later: "b \<in> set (takeWhile (\<lambda>t. t \<noteq> a) rest)" by simp
    show ?thesis
    proof (cases "is_named_arg arg")
      case True
      with False have "map_of alias_map arg = None" by simp
      from "2.IH"(1) [OF True this rec a b known fresh later] show ?thesis .
    next
      case n: False
      from "2.IH"(3) [OF n rec a b known fresh later] show ?thesis .
    qed
  next
    case True
    then obtain d where d: "map_of alias_map arg = Some d" and n: "is_named_arg arg" by auto
    from "2.prems"(1) d n obtain vals rest' where
      v: "parse_and_consume_values rest d arg = Inr (vals, rest')" and
      r: "consume_named alias_map
            (AList.map_default arg [vals] (\<lambda>groups. groups @ [vals]) consumed) kept rest'
          = Inr (c', kept')"
      by (auto split: sum.splits)
    let ?c1 = "AList.map_default arg [vals] (\<lambda>groups. groups @ [vals]) consumed"
    from fresh ne have fresh1: "a \<notin> fst ` set ?c1"
      by (simp add: dom_map_default)
    show ?thesis
    proof (cases "b = arg")
      case True
      have inside: "b \<in> set (map fst ?c1)" using True by (simp add: dom_map_default)
      from fresh1 have "takeWhile (\<lambda>t. t \<noteq> a) (map fst ?c1) = map fst ?c1"
        by (intro takeWhile_eq_all_conv [THEN iffD2]) auto
      with inside have "b \<in> set (takeWhile (\<lambda>t. t \<noteq> a) (map fst ?c1))"
        by (simp only:)
      from consume_named_before_mono [OF r this] show ?thesis .
    next
      case False
      with here have "b \<in> set (takeWhile (\<lambda>t. t \<noteq> a) rest)" by simp
      from before_after_values [OF v a b this]
      have later: "b \<in> set (takeWhile (\<lambda>t. t \<noteq> a) rest')" .
      from "2.IH"(2) [OF n d v refl r a b known fresh1 later] show ?thesis .
    qed
  qed
qed

lemma consume_named_lists_before:
  "consume_named_lists am c segs = Inr (c', segs') \<Longrightarrow>
   is_named_arg a \<Longrightarrow> is_named_arg b \<Longrightarrow> map_of am b \<noteq> None \<Longrightarrow>
   a \<notin> fst ` set c \<Longrightarrow> b \<in> set (takeWhile (\<lambda>t. t \<noteq> a) (concat segs)) \<Longrightarrow>
   b \<in> set (takeWhile (\<lambda>t. t \<noteq> a) (map fst c'))"
proof (induction segs arbitrary: c c' segs')
  case Nil
  then show ?case by auto
next
  case (Cons l segs)
  note a = Cons.prems(2) and b = Cons.prems(3) and known = Cons.prems(4)
    and fresh = Cons.prems(5)
  from Cons.prems(1) obtain c1 l' ls' where
    one: "consume_named am c [] l = Inr (c1, l')" and
    others: "consume_named_lists am c1 segs = Inr (c', ls')"
    by (auto split: sum.splits)
  show ?case
  proof (cases "b \<in> set (takeWhile (\<lambda>t. t \<noteq> a) l)")
    case True
    from consume_named_before [OF one a b known fresh True]
    have "b \<in> set (takeWhile (\<lambda>t. t \<noteq> a) (map fst c1))" .
    from consume_named_lists_before_mono [OF others this] show ?thesis .
  next
    case False
    have absent: "a \<notin> set l"
    proof
      assume "a \<in> set l"
      then have "takeWhile (\<lambda>t. t \<noteq> a) (l @ concat segs) = takeWhile (\<lambda>t. t \<noteq> a) l"
        by (intro takeWhile_append1 [of a]) simp_all
      with Cons.prems(6) False show False by simp
    qed
    then have all: "takeWhile (\<lambda>t. t \<noteq> a) l = l"
      by (intro takeWhile_eq_all_conv [THEN iffD2]) auto
    from absent have "takeWhile (\<lambda>t. t \<noteq> a) (l @ concat segs)
        = l @ takeWhile (\<lambda>t. t \<noteq> a) (concat segs)"
      by (intro takeWhile_append2) auto
    with Cons.prems(6) have "b \<in> set l \<or> b \<in> set (takeWhile (\<lambda>t. t \<noteq> a) (concat segs))"
      by simp
    with False all have later: "b \<in> set (takeWhile (\<lambda>t. t \<noteq> a) (concat segs))"
      by (simp only:) blast
    from consume_named_keys [OF one] fresh absent have "a \<notin> fst ` set c1" by auto
    from Cons.IH [OF others a b known this later] show ?thesis .
  qed
qed

text \<open>The entries recorded in front of an alias, the entry of the alias, and the others.\<close>

lemma consumed_split:
  "map_of c a = Some g \<Longrightarrow>
   c = takeWhile (\<lambda>p. fst p \<noteq> a) c @ (a, g) # tl (dropWhile (\<lambda>p. fst p \<noteq> a) c)"
  by (induction c) (auto split: if_splits)

text \<open>
  Claim C3, at the tokens. In the named pass of a command, let \<open>alias\<close> be a named token
  that the pass knows as an alias of a Set argument, and let the argument be given twice
  in the token lists: either \<open>alias\<close> occurs at least twice, or it occurs and in front of
  its first occurrence there is another known alias of an argument with the same
  identifier. Then the pass fails. If the scan of the tokens fails (an occurrence lacks
  values), its error is raised; otherwise the aliases recorded in front of \<open>alias\<close> are
  parsed first, and the first error among them is raised; otherwise the error for the
  repeated argument \<open>alias\<close> is raised.
\<close>

theorem repeated_set_argument:
  assumes "named_args_maps (arguments cmd) only_propagated = (ids_map, alias_map)"
    and "map_of alias_map alias = Some d" and "action d = Set" and "is_named_arg alias"
    and "2 \<le> count_list (concat arg_lists) alias \<or>
         (alias \<in> set (concat arg_lists) \<and>
          (\<exists>alias' \<in> set (takeWhile (\<lambda>t. t \<noteq> alias) (concat arg_lists)). \<exists>d'.
             is_named_arg alias' \<and> map_of alias_map alias' = Some d' \<and> arg_id d' = arg_id d))"
  shows "parse_and_consume_named_args cmd arg_lists only_propagated =
           (case consume_named_lists alias_map [] arg_lists of
              Inl e \<Rightarrow> Inl e
            | Inr (consumed, arg_lists') \<Rightarrow>
                (case parse_consumed alias_map ids_map []
                        (takeWhile (\<lambda>p. fst p \<noteq> alias) consumed) of
                   Inl e \<Rightarrow> Inl e
                 | Inr _ \<Rightarrow> Inl (ClapyParsingError (Repeated_argument alias)))) \<and>
         isl (parse_and_consume_named_args cmd arg_lists only_propagated)"
proof -
  have eq: "parse_and_consume_named_args cmd arg_lists only_propagated =
           (case consume_named_lists alias_map [] arg_lists of
              Inl e \<Rightarrow> Inl e
            | Inr (consumed, arg_lists') \<Rightarrow>
                (case parse_consumed alias_map ids_map []
                        (takeWhile (\<lambda>p. fst p \<noteq> alias) consumed) of
                   Inl e \<Rightarrow> Inl e
                 | Inr _ \<Rightarrow> Inl (ClapyParsingError (Repeated_argument alias))))"
  proof (cases "consume_named_lists alias_map [] arg_lists")
    case (Inl e)
    then show ?thesis by (simp add: parse_and_consume_named_args_def assms(1))
  next
    case (Inr r)
    then obtain consumed arg_lists' where
      scan: "consume_named_lists alias_map [] arg_lists = Inr (consumed, arg_lists')"
      by (cases r) simp
    from assms(2) have known: "map_of alias_map alias \<noteq> None" by simp
    from consume_named_lists_count [OF scan assms(4) known]
    have cnt: "case_option 0 length (map_of consumed alias)
        = count_list (concat arg_lists) alias" by simp
    have "alias \<in> set (concat arg_lists) \<Longrightarrow> count_list (concat arg_lists) alias \<noteq> 0"
      by (simp only: count_list_0_iff) simp
    with assms(5) have "count_list (concat arg_lists) alias \<noteq> 0"
      by fastforce
    with cnt obtain groups where g: "map_of consumed alias = Some groups"
      and len: "length groups = count_list (concat arg_lists) alias"
      by (cases "map_of consumed alias") auto
    define pre where "pre = takeWhile (\<lambda>p. fst p \<noteq> alias) consumed"
    define post where "post = tl (dropWhile (\<lambda>p. fst p \<noteq> alias) consumed)"
    have split: "consumed = pre @ (alias, groups) # post"
      using consumed_split [OF g] by (simp add: pre_def post_def)
    have whole: "parse_consumed alias_map ids_map [] consumed =
        (case parse_consumed alias_map ids_map [] pre of
           Inl e \<Rightarrow> Inl e
         | Inr _ \<Rightarrow> Inl (ClapyParsingError (Repeated_argument alias)))"
    proof (cases "parse_consumed alias_map ids_map [] pre")
      case (Inl e)
      then show ?thesis by (simp add: split parse_consumed_append)
    next
      case (Inr r2)
      then obtain ids_left parsed where
        pre_ok: "parse_consumed alias_map ids_map [] pre = Inr (ids_left, parsed)"
        by (cases r2) simp
      have "action d = Set \<and> 1 < length groups \<or> map_of ids_left (arg_id d) = None"
      proof (cases "2 \<le> count_list (concat arg_lists) alias")
        case True
        with len assms(3) show ?thesis by simp
      next
        case False
        with assms(5) obtain alias' d' where
          first: "alias' \<in> set (takeWhile (\<lambda>t. t \<noteq> alias) (concat arg_lists))" and
          n': "is_named_arg alias'" and d': "map_of alias_map alias' = Some d'" and
          same: "arg_id d' = arg_id d"
          by blast
        from d' have known': "map_of alias_map alias' \<noteq> None" by simp
        have "alias \<notin> fst ` set ([] :: consumed_map)" by simp
        from consume_named_lists_before [OF scan assms(4) n' known' this first]
        have "alias' \<in> fst ` set pre"
          by (simp add: pre_def takeWhile_map comp_def)
        then obtain g' where "(alias', g') \<in> set pre" by auto
        from parse_consumed_removes [OF pre_ok this d'] same show ?thesis by simp
      qed
      from parse_consumed_repeated [OF assms(2) this]
      have "parse_consumed alias_map ids_left parsed ((alias, groups) # post)
          = Inl (ClapyParsingError (Repeated_argument alias))" .
      then show ?thesis by (simp add: split parse_consumed_append pre_ok)
    qed
    show ?thesis
      by (simp add: parse_and_consume_named_args_def assms(1) scan whole pre_def
          split: sum.splits)
  qed
  have "isl (parse_and_consume_named_args cmd arg_lists only_propagated)"
    by (subst eq) (simp split: sum.splits prod.splits)
  with eq show ?thesis by blast
qed

text \<open>
  The same alias twice, the short alias in front of the long one, and the short alias
  with a value that is not allowed in front of the long one; the whole parse of the first
  token list fails in the same way.
\<close>

theorem repeated_set_argument_witness:
  "parse_and_consume_named_args
     (default_command ''app'' [(Arg ''opt'')\<lparr>short := Some ''-o'', long := Some ''--opt''\<rparr>] [])
     [[''--opt'', ''a'', ''--opt'', ''b'']] False
     = Inl (ClapyParsingError (Repeated_argument ''--opt'')) \<and>
   parse_and_consume_named_args
     (default_command ''app'' [(Arg ''opt'')\<lparr>short := Some ''-o'', long := Some ''--opt''\<rparr>] [])
     [[''-o'', ''a'', ''--opt'', ''b'']] False
     = Inl (ClapyParsingError (Repeated_argument ''--opt'')) \<and>
   parse_and_consume_named_args
     (default_command ''app''
        [(Arg ''opt'')\<lparr>short := Some ''-o'', long := Some ''--opt'',
            valid_values := Some [PStr ''1'']\<rparr>] [])
     [[''-o'', ''x'', ''--opt'', ''1'']] False
     = Inl (ClapyParsingError (Invalid_named_value ''-o'' (PStr ''x'') [''1''])) \<and>
   parse_from_try
     (default_command ''app'' [(Arg ''opt'')\<lparr>short := Some ''-o'', long := Some ''--opt''\<rparr>] [])
     [''--opt'', ''a'', ''--opt'', ''b'']
     = Inl (ClapyParsingError (Repeated_argument ''--opt''))"
proof -
  let ?d = "(Arg ''opt'')\<lparr>short := Some ''-o'', long := Some ''--opt''\<rparr>"
  let ?cmd = "default_command ''app'' [?d] []"
  let ?am = "[(''--opt'', ?d), (''-o'', ?d)]"
  let ?d1 = "(Arg ''opt'')\<lparr>short := Some ''-o'', long := Some ''--opt'',
            valid_values := Some [PStr ''1'']\<rparr>"
  let ?cmd1 = "default_command ''app'' [?d1] []"
  let ?am1 = "[(''--opt'', ?d1), (''-o'', ?d1)]"
  have maps: "named_args_maps (arguments ?cmd) False = ([(''opt'', ?d)], ?am)"
    by (simp add: parse_defs)
  have d: "map_of ?am ''--opt'' = Some ?d" and act: "action ?d = Set"
    and named: "is_named_arg ''--opt''"
    by (simp_all add: parse_defs Arg_def)
  have twice: "2 \<le> count_list (concat [[''--opt'', ''a'', ''--opt'', ''b'']]) ''--opt''"
    by simp
  have mixed: "''--opt'' \<in> set (concat [[''-o'', ''a'', ''--opt'', ''b'']]) \<and>
     (\<exists>alias' \<in> set (takeWhile (\<lambda>t. t \<noteq> ''--opt'') (concat [[''-o'', ''a'', ''--opt'', ''b'']])).
        \<exists>d'. is_named_arg alias' \<and> map_of ?am alias' = Some d' \<and> arg_id d' = arg_id ?d)"
    by (simp add: parse_defs)
  have maps1: "named_args_maps (arguments ?cmd1) False = ([(''opt'', ?d1)], ?am1)"
    by (simp add: parse_defs)
  have d1: "map_of ?am1 ''--opt'' = Some ?d1" and act1: "action ?d1 = Set"
    by (simp_all add: Arg_def)
  have mixed1: "''--opt'' \<in> set (concat [[''-o'', ''x'', ''--opt'', ''1'']]) \<and>
     (\<exists>alias' \<in> set (takeWhile (\<lambda>t. t \<noteq> ''--opt'') (concat [[''-o'', ''x'', ''--opt'', ''1'']])).
        \<exists>d'. is_named_arg alias' \<and> map_of ?am1 alias' = Some d' \<and> arg_id d' = arg_id ?d1)"
    by (simp add: parse_defs)
  have one: "parse_and_consume_named_args ?cmd [[''--opt'', ''a'', ''--opt'', ''b'']] False
      = Inl (ClapyParsingError (Repeated_argument ''--opt''))"
    using repeated_set_argument [OF maps d act named disjI1 [OF twice]]
    by (simp add: parse_defs)
  have two: "parse_and_consume_named_args ?cmd [[''-o'', ''a'', ''--opt'', ''b'']] False
      = Inl (ClapyParsingError (Repeated_argument ''--opt''))"
    using repeated_set_argument [OF maps d act named disjI2 [OF mixed]]
    by (simp add: parse_defs AList.delete_eq)
  have three: "parse_and_consume_named_args ?cmd1 [[''-o'', ''x'', ''--opt'', ''1'']] False
      = Inl (ClapyParsingError (Invalid_named_value ''-o'' (PStr ''x'') [''1'']))"
    using repeated_set_argument [OF maps1 d1 act1 named disjI2 [OF mixed1]]
    by (simp add: parse_defs py_in_def)
  have whole: "parse_from_try ?cmd [''--opt'', ''a'', ''--opt'', ''b'']
      = Inl (ClapyParsingError (Repeated_argument ''--opt''))"
    by (simp add: parse_defs)
  from one two three whole show ?thesis by simp
qed

end
